theory Spec2Isabelle
  imports Complex_Main "HOL-Library.Sublist" "HOL-Library.AList"
begin

section \<open>Strings\<close>

text \<open>
  A Python \<open>str\<close> is modelled as a \<open>string\<close>, the list of its code points, for code
  points below 256. The operations of \<open>str\<close> and \<open>os.path\<close> that \<open>main.py\<close> calls
  are written out here.
\<close>

definition endswith :: "string \<Rightarrow> string \<Rightarrow> bool" where
  \<comment> \<open>\<open>s.endswith(suf)\<close>\<close>
  "endswith s suf = suffix suf s"

definition startswith :: "string \<Rightarrow> string \<Rightarrow> bool" where
  \<comment> \<open>\<open>s.startswith(pre)\<close>\<close>
  "startswith s pre = prefix pre s"

text \<open>
  \<open>s.replace(old, new)\<close> replaces every occurrence of \<open>old\<close>, scanning from the left
  and skipping over each occurrence it has replaced. With an empty \<open>old\<close>, Python puts
  \<open>new\<close> before every character and at the end.
\<close>

function str_replace :: "string \<Rightarrow> string \<Rightarrow> string \<Rightarrow> string" where
  "str_replace old new s =
     (if old = [] then new @ concat (map (\<lambda>c. c # new) s)
      else if prefix old s then new @ str_replace old new (drop (length old) s)
      else (case s of [] \<Rightarrow> [] | c # cs \<Rightarrow> c # str_replace old new cs))"
  by pat_completeness auto
termination
  by (relation "measure (\<lambda>(old, new, s). length s)") (auto simp: prefix_def)

declare str_replace.simps [simp del]

text \<open>\<open>s.split(sep)\<close> for a separator of one character: one segment more than separators.\<close>

fun split_on :: "char \<Rightarrow> string \<Rightarrow> string list" where
  "split_on sep [] = [[]]"
| "split_on sep (c # cs) =
     (if c = sep then [] # split_on sep cs
      else (case split_on sep cs of [] \<Rightarrow> [[c]] | x # xs \<Rightarrow> (c # x) # xs))"

definition isspace :: "char \<Rightarrow> bool" where
  \<comment> \<open>\<open>str.isspace\<close> on the code points below 256\<close>
  "isspace c = (of_char c \<in> {9, 10, 11, 12, 13, 28, 29, 30, 31, 32, 133, 160 :: nat})"

definition strip :: "string \<Rightarrow> string" where
  \<comment> \<open>\<open>s.strip()\<close>\<close>
  "strip s = rev (dropWhile isspace (rev (dropWhile isspace s)))"

definition os_path_join :: "string \<Rightarrow> string \<Rightarrow> string" where
  \<comment> \<open>\<open>posixpath.join(a, b)\<close>\<close>
  "os_path_join a b =
     (if startswith b ''/'' then b
      else if a = [] \<or> endswith a ''/'' then a @ b
      else a @ ''/'' @ b)"

section \<open>The file system\<close>

text \<open>
  The file system is a tree: a file holds its bytes, a directory its entries in listing
  order. A path string names the node reached by its components, the non-empty segments
  between slashes, from the root (all paths of the program are absolute; the components
  \<open>.\<close> and \<open>..\<close> are not interpreted).
\<close>

datatype node = File string | Dir "(string \<times> node) list"

datatype error =
  ValueError | KeyError | TypeError | AttributeError | JSONDecodeError | UnicodeDecodeError
  | ClientResponseError | ClientConnectionError | ClientPayloadError | OSError | BadZipFile

definition path_parts :: "string \<Rightarrow> string list" where
  "path_parts p = filter (\<lambda>c. c \<noteq> []) (split_on CHR ''/'' p)"

fun lookup :: "node \<Rightarrow> string list \<Rightarrow> node option" where
  "lookup n [] = Some n"
| "lookup (File _) (c # cs) = None"
| "lookup (Dir es) (c # cs) =
     (case map_of es c of None \<Rightarrow> None | Some n \<Rightarrow> lookup n cs)"

text \<open>\<open>put cs new n\<close> places \<open>new\<close> at \<open>cs\<close>; the parent must be an existing directory.\<close>

fun put :: "string list \<Rightarrow> node \<Rightarrow> node \<Rightarrow> node option" where
  "put [] new n = Some new"
| "put (c # cs) new (File _) = None"
| "put [c] new (Dir es) = Some (Dir (AList.update c new es))"
| "put (c # cs) new (Dir es) =
     (case map_of es c of
        None \<Rightarrow> None
      | Some n \<Rightarrow>
          (case put cs new n of
             None \<Rightarrow> None
           | Some n' \<Rightarrow> Some (Dir (AList.update c n' es))))"

text \<open>\<open>del cs n\<close> removes the node at \<open>cs\<close> with everything below it.\<close>

fun del :: "string list \<Rightarrow> node \<Rightarrow> node" where
  "del [] n = n"
| "del (c # cs) (File x) = File x"
| "del [c] (Dir es) = Dir (AList.delete c es)"
| "del (c # cs) (Dir es) =
     (case map_of es c of
        None \<Rightarrow> Dir es
      | Some n \<Rightarrow> Dir (AList.update c (del cs n) es))"

definition os_path_exists :: "string \<Rightarrow> node \<Rightarrow> bool" where
  "os_path_exists p fs = (lookup fs (path_parts p) \<noteq> None)"


text \<open>
  \<open>os.rename(src, dst)\<close> moves a file or a directory, replacing a file or an empty
  directory at \<open>dst\<close>. It raises \<open>OSError\<close> when \<open>src\<close> does not exist, when the parent
  of \<open>dst\<close> is not a directory, when \<open>dst\<close> lies inside \<open>src\<close>, when a file would
  replace a directory or a directory a file, and when \<open>dst\<close> is a directory that is not
  empty.
\<close>

definition os_rename :: "string \<Rightarrow> string \<Rightarrow> node \<Rightarrow> error + node" where
  "os_rename src dst fs =
     (let s = path_parts src; d = path_parts dst in
      case lookup fs s of
        None \<Rightarrow> Inl OSError
      | Some n \<Rightarrow>
          if s = [] then Inl OSError
          else if s = d then Inr fs
          else if prefix s d then Inl OSError
          else (case (n, lookup fs d) of
                  (File _, Some (Dir _)) \<Rightarrow> Inl OSError
                | (Dir _, Some (File _)) \<Rightarrow> Inl OSError
                | (Dir _, Some (Dir (_ # _))) \<Rightarrow> Inl OSError
                | _ \<Rightarrow> (case put d n (del s fs) of
                          None \<Rightarrow> Inl OSError
                        | Some fs' \<Rightarrow> Inr fs')))"

section \<open>The segment transformer\<close>

text \<open>
  \<open>decrypt_files_placeholder(segment_files, hls_key)\<close>: the loop over \<open>segment_files\<close>
  carries the list \<open>decrypted_files\<close> it appends to and the file system it renames in.
  A failed rename is caught and the original path appended.
\<close>

fun decrypt_loop :: "string list \<Rightarrow> string list \<times> node \<Rightarrow> string list \<times> node" where
  "decrypt_loop [] (decrypted_files, fs) = (decrypted_files, fs)"
| "decrypt_loop (filepath # rest) (decrypted_files, fs) =
     (if endswith filepath ''.tsa'' then
        (let decrypted = str_replace ''.tsa'' ''.mp4'' filepath in
         case os_rename filepath decrypted fs of
           Inr fs' \<Rightarrow> decrypt_loop rest (decrypted_files @ [decrypted], fs')
         | Inl e \<Rightarrow> decrypt_loop rest (decrypted_files @ [filepath], fs))
      else decrypt_loop rest (decrypted_files @ [filepath], fs))"

definition decrypt_files_placeholder ::
  "string list \<Rightarrow> 'k \<Rightarrow> node \<Rightarrow> string list \<times> node" where
  "decrypt_files_placeholder segment_files hls_key fs = decrypt_loop segment_files ([], fs)"

section \<open>Further file operations\<close>

definition write_file :: "string \<Rightarrow> string \<Rightarrow> node \<Rightarrow> error + node" where
  \<comment> \<open>\<open>open(path, 'wb')\<close>, \<open>f.write(data)\<close> and the close\<close>
  "write_file path data fs =
     (case lookup fs (path_parts path) of
        Some (Dir _) \<Rightarrow> Inl OSError
      | _ \<Rightarrow> (case put (path_parts path) (File data) fs of
                None \<Rightarrow> Inl OSError
              | Some fs' \<Rightarrow> Inr fs'))"

definition os_mkdir :: "string \<Rightarrow> node \<Rightarrow> error + node" where
  "os_mkdir path fs =
     (case lookup fs (path_parts path) of
        Some _ \<Rightarrow> Inl OSError
      | None \<Rightarrow> (case put (path_parts path) (Dir []) fs of
                   None \<Rightarrow> Inl OSError
                 | Some fs' \<Rightarrow> Inr fs'))"

fun makedirs :: "string list \<Rightarrow> node \<Rightarrow> node option" where
  "makedirs cs (File _) = None"
| "makedirs [] (Dir es) = Some (Dir es)"
| "makedirs (c # cs) (Dir es) =
     (case makedirs cs (case map_of es c of None \<Rightarrow> Dir [] | Some n \<Rightarrow> n) of
        None \<Rightarrow> None
      | Some n' \<Rightarrow> Some (Dir (AList.update c n' es)))"

definition os_makedirs :: "string \<Rightarrow> node \<Rightarrow> error + node" where
  \<comment> \<open>\<open>os.makedirs(path, exist_ok=True)\<close>\<close>
  "os_makedirs path fs =
     (case makedirs (path_parts path) fs of None \<Rightarrow> Inl OSError | Some fs' \<Rightarrow> Inr fs')"

definition os_remove :: "string \<Rightarrow> node \<Rightarrow> error + node" where
  "os_remove path fs =
     (case lookup fs (path_parts path) of
        Some (File _) \<Rightarrow> Inr (del (path_parts path) fs)
      | _ \<Rightarrow> Inl OSError)"

definition rmtree :: "string \<Rightarrow> node \<Rightarrow> node" where
  \<comment> \<open>the cleanup of \<open>tempfile.TemporaryDirectory\<close>\<close>
  "rmtree path fs = del (path_parts path) fs"

text \<open>
  \<open>os.walk(dirpath)\<close>, top-down: for each directory its path, the names of its
  subdirectories and the names of its other entries. Walking a file yields nothing.
\<close>

fun os_walk :: "string \<Rightarrow> node \<Rightarrow> (string \<times> string list \<times> string list) list" where
  "os_walk dirpath (File _) = []"
| "os_walk dirpath (Dir es) =
     (dirpath, [name. (name, Dir _) \<leftarrow> es], [name. (name, File _) \<leftarrow> es])
     # concat (map (\<lambda>(name, sub). os_walk (os_path_join dirpath name) sub) es)"

section \<open>Values and the network\<close>

text \<open>
  The Python values a JSON body parses to. A \<open>dict\<close> is the list of its items, with
  distinct keys; a \<open>float\<close> is the real number it denotes.
\<close>

datatype py =
  PyNone | PyBool bool | PyInt int | PyFloat real | PyStr string
  | PyList "py list" | PyDict "(string \<times> py) list"

fun truthy :: "py \<Rightarrow> bool" where
  "truthy PyNone = False"
| "truthy (PyBool b) = b"
| "truthy (PyInt i) = (i \<noteq> 0)"
| "truthy (PyFloat r) = (r \<noteq> 0)"
| "truthy (PyStr s) = (s \<noteq> [])"
| "truthy (PyList xs) = (xs \<noteq> [])"
| "truthy (PyDict kvs) = (kvs \<noteq> [])"

fun py_get :: "py \<Rightarrow> string \<Rightarrow> error + py" where
  \<comment> \<open>\<open>data.get(k)\<close>: only a \<open>dict\<close> has the method\<close>
  "py_get (PyDict kvs) k = Inr (case map_of kvs k of None \<Rightarrow> PyNone | Some v \<Rightarrow> v)"
| "py_get _ k = Inl AttributeError"

fun py_slice_to :: "nat \<Rightarrow> py \<Rightarrow> error + py" where
  \<comment> \<open>\<open>v[:n]\<close>: a \<open>str\<close> and a \<open>list\<close> can be sliced, nothing else here can\<close>
  "py_slice_to n (PyStr s) = Inr (PyStr (take n s))"
| "py_slice_to n (PyList xs) = Inr (PyList (take n xs))"
| "py_slice_to n _ = Inl TypeError"

text \<open>
  A request is what \<open>aiohttp\<close> sends. A response gives its status, the value of
  \<open>response.text()\<close> and of \<open>response.json()\<close> (\<open>None\<close> where the call raises), the
  bytes its stream delivers, and whether the stream broke after them. The remote side is
  a function from requests to responses, \<open>None\<close> where no response arrives.
\<close>

datatype request = POST string "(string \<times> string) list" py | GET string

record response =
  status :: nat
  text_value :: "string option"
  json_value :: "py option"
  content :: string
  truncated :: bool

type_synonym remote = "request \<Rightarrow> response option"

datatype notice =
  Greeting | NeedToken | InvalidToken | TokenSet | NeedUrl | TokenNotSet | InvalidUrl
  | Processing string | SendFailed | Failed

datatype outgoing = Answer notice | Document string string

text \<open>
  The state the program acts on: the file system, the global \<open>VERCEL_API_TOKEN\<close>, the
  requests issued so far and the messages sent to the chat so far, oldest first.
\<close>

record world =
  disk :: node
  api_token :: "string option"
  requests :: "request list"
  outbox :: "outgoing list"

section \<open>The key resolver\<close>

definition is_hex :: "char \<Rightarrow> bool" where
  \<comment> \<open>the character class \<open>[a-f0-9]\<close>\<close>
  "is_hex c = (c \<in> set ''abcdef0123456789'')"

text \<open>
  \<open>re.search(r'encrypted-([a-f0-9]+)', s)\<close>, giving \<open>match.group(0)\<close>: the scan tries
  each start position from the left; at a position the literal must follow and then the
  longest run of class characters, which must not be empty.
\<close>

fun re_search_encrypted :: "string \<Rightarrow> string option" where
  "re_search_encrypted s =
     (if prefix ''encrypted-'' s \<and> takeWhile is_hex (drop 10 s) \<noteq> []
      then Some (''encrypted-'' @ takeWhile is_hex (drop 10 s))
      else (case s of [] \<Rightarrow> None | c # cs \<Rightarrow> re_search_encrypted cs))"

declare re_search_encrypted.simps [simp del]

text \<open>
  \<open>encrypted_id_at url pre hs post\<close>: after \<open>pre\<close>, the URL reads \<open>encrypted-\<close>, then
  the non-empty hexadecimal run \<open>hs\<close>, then \<open>post\<close>.
\<close>

definition encrypted_id_at :: "string \<Rightarrow> string \<Rightarrow> string \<Rightarrow> string \<Rightarrow> bool" where
  "encrypted_id_at url pre hs post \<longleftrightarrow>
     url = pre @ ''encrypted-'' @ hs @ post \<and> hs \<noteq> [] \<and> (\<forall>c \<in> set hs. is_hex c)"

definition api_url :: string where
  "api_url = ''https://boosteracademyapi.classx.co.in/api/get_hls_key''"

definition headers :: "string \<Rightarrow> (string \<times> string) list" where
  "headers vercel_api_token =
     [(''host'', ''boosteracademyapi.classx.co.in''),
      (''content-type'', ''application/json''),
      (''authorization'', vercel_api_token)]"

text \<open>
  \<open>get_hls_key(zipurl, vercel_api_token)\<close>. Two simplifications: every failure of
  \<open>response.json()\<close> is given as \<open>JSONDecodeError\<close> (for a body whose content type is
  not JSON \<open>aiohttp\<close> raises \<open>ContentTypeError\<close> instead), and a token that \<open>aiohttp\<close>
  refuses as a header value, which would raise before the request is sent, is not
  told apart from any other token.
\<close>

definition get_hls_key :: "remote \<Rightarrow> string \<Rightarrow> string \<Rightarrow> world \<Rightarrow> (error + py) \<times> world" where
  "get_hls_key remote zipurl vercel_api_token w =
     (case re_search_encrypted zipurl of
        None \<Rightarrow> (Inl ValueError, w)
      | Some encryption_id \<Rightarrow>
          (let payload = PyDict [(''id'', PyStr encryption_id)];
               req = POST api_url (headers vercel_api_token) payload;
               w' = w\<lparr>requests := requests w @ [req]\<rparr>
           in case remote req of
                None \<Rightarrow> (Inl ClientConnectionError, w')
              | Some response \<Rightarrow>
                  (case text_value response of
                     None \<Rightarrow> (Inl UnicodeDecodeError, w')
                   | Some response_text \<Rightarrow>
                       if 400 \<le> status response then (Inl ClientResponseError, w')
                       else (case json_value response of
                               None \<Rightarrow> (Inl JSONDecodeError, w')
                             | Some data \<Rightarrow>
                                 (case py_get data ''key'' of
                                    Inl e \<Rightarrow> (Inl e, w')
                                  | Inr key \<Rightarrow>
                                      if \<not> truthy key then (Inl KeyError, w')
                                      else (case py_slice_to 10 key of
                                              Inl e \<Rightarrow> (Inl e, w')
                                            | Inr preview \<Rightarrow> (Inr key, w')))))))"

section \<open>Fetching and expanding the archive\<close>

definition download_file :: "remote \<Rightarrow> string \<Rightarrow> string \<Rightarrow> world \<Rightarrow> (error + unit) \<times> world" where
  "download_file remote url path w =
     (let w' = w\<lparr>requests := requests w @ [GET url]\<rparr>
      in case remote (GET url) of
           None \<Rightarrow> (Inl ClientConnectionError, w')
         | Some response \<Rightarrow>
             if 400 \<le> status response then (Inl ClientResponseError, w')
             else (case write_file path (content response) (disk w') of
                     Inl e \<Rightarrow> (Inl e, w')
                   | Inr fs' \<Rightarrow>
                       if truncated response then (Inl ClientPayloadError, w'\<lparr>disk := fs'\<rparr>)
                       else (Inr (), w'\<lparr>disk := fs'\<rparr>)))"

text \<open>
  \<open>zipfile\<close> is a library: \<open>unzip\<close> stands for \<open>ZipFile(zip_path).extractall(dir)\<close>,
  from the bytes of the archive and the directory as it is to the directory as the call
  leaves it, with the error it raised, if any (entries written before an error stay).
\<close>

type_synonym unzip = "string \<Rightarrow> node \<Rightarrow> node \<times> error option"

definition extract_zip :: "unzip \<Rightarrow> string \<Rightarrow> string \<Rightarrow> world \<Rightarrow> (error + unit) \<times> world" where
  "extract_zip unzip zip_path extract_to w =
     (case os_makedirs extract_to (disk w) of
        Inl e \<Rightarrow> (Inl e, w)
      | Inr fs1 \<Rightarrow>
          (case (lookup fs1 (path_parts zip_path), lookup fs1 (path_parts extract_to)) of
             (Some (File bytes), Some target) \<Rightarrow>
               (let (target', err) = unzip bytes target
                in case put (path_parts extract_to) target' fs1 of
                     None \<Rightarrow> (Inl OSError, w\<lparr>disk := fs1\<rparr>)
                   | Some fs2 \<Rightarrow>
                       (case err of
                          Some e \<Rightarrow> (Inl e, w\<lparr>disk := fs2\<rparr>)
                        | None \<Rightarrow> (Inr (), w\<lparr>disk := fs2\<rparr>)))
           | _ \<Rightarrow> (Inl OSError, w\<lparr>disk := fs1\<rparr>)))"

section \<open>The output producer and the pipeline\<close>

definition dummy_mkv :: string where
  "dummy_mkv = ''# Simulated MKV Header'' @ [CHR 0x0A] @ ''Dummy video content'' @ [CHR 0x0A]"

definition process_final_output_placeholder :: "string \<Rightarrow> world \<Rightarrow> (error + string) \<times> world" where
  "process_final_output_placeholder extracted_dir w =
     (let output_path = os_path_join extracted_dir ''simulated_output.mkv''
      in case write_file output_path dummy_mkv (disk w) of
           Inl e \<Rightarrow> (Inl e, w)
         | Inr fs' \<Rightarrow> (Inr output_path, w\<lparr>disk := fs'\<rparr>))"

definition supported_extensions :: "string list" where
  "supported_extensions = [''.tsa'']"

text \<open>The segment locator, lines 119 to 124: the walk of the extracted tree.\<close>

definition segment_files_in :: "string \<Rightarrow> node \<Rightarrow> string list" where
  "segment_files_in extracted_path tree =
     concat (map (\<lambda>(rootdir, dirs, files).
                    map (os_path_join rootdir)
                      (filter (\<lambda>file. list_ex (endswith file) supported_extensions) files))
                 (os_walk extracted_path tree))"

definition locate_segments :: "string \<Rightarrow> node \<Rightarrow> string list" where
  "locate_segments extracted_path fs =
     (case lookup fs (path_parts extracted_path) of
        None \<Rightarrow> []
      | Some tree \<Rightarrow> segment_files_in extracted_path tree)"

text \<open>
  The body of the \<open>with tempfile.TemporaryDirectory() as temp_dir\<close> block, in two
  parts: lines 112 to 117 fetch the archive and expand it, lines 119 to 132 locate and
  transform the segments and produce the output.
\<close>

definition fetch_and_expand ::
  "remote \<Rightarrow> unzip \<Rightarrow> string \<Rightarrow> string \<Rightarrow> world \<Rightarrow> (error + unit) \<times> world" where
  "fetch_and_expand remote unzip temp_dir zipurl w =
     (let zip_file_path = os_path_join temp_dir ''downloaded.zip'';
          extracted_path = os_path_join temp_dir ''extracted''
      in case os_makedirs extracted_path (disk w) of
           Inl e \<Rightarrow> (Inl e, w)
         | Inr fs1 \<Rightarrow>
             (case download_file remote zipurl zip_file_path (w\<lparr>disk := fs1\<rparr>) of
                (Inl e, w2) \<Rightarrow> (Inl e, w2)
              | (Inr _, w2) \<Rightarrow> extract_zip unzip zip_file_path extracted_path w2))"

definition workspace_body ::
  "remote \<Rightarrow> unzip \<Rightarrow> string \<Rightarrow> string \<Rightarrow> py \<Rightarrow> world \<Rightarrow> (error + string) \<times> world" where
  "workspace_body remote unzip temp_dir zipurl hls_key w =
     (case fetch_and_expand remote unzip temp_dir zipurl w of
        (Inl e, w3) \<Rightarrow> (Inl e, w3)
      | (Inr _, w3) \<Rightarrow>
          (let extracted_path = os_path_join temp_dir ''extracted'';
               segment_files = locate_segments extracted_path (disk w3);
               w4 = (if segment_files = [] then w3
                     else w3\<lparr>disk := snd (decrypt_files_placeholder
                                           segment_files hls_key (disk w3))\<rparr>)
           in process_final_output_placeholder extracted_path w4))"

text \<open>
  \<open>process_appx_zip_logic(zipurl)\<close>. \<open>temp_dir\<close> is the name \<open>tempfile\<close> picks for the
  directory it makes. Leaving the \<open>with\<close> block, by \<open>return\<close> or by an exception,
  removes the directory; the \<open>except\<close> clause turns every exception into \<open>None\<close>.
\<close>

definition process_appx_zip_logic ::
  "remote \<Rightarrow> unzip \<Rightarrow> string \<Rightarrow> string \<Rightarrow> world \<Rightarrow> string option \<times> world" where
  "process_appx_zip_logic remote unzip temp_dir zipurl w =
     (case api_token w of
        None \<Rightarrow> (None, w)
      | Some token \<Rightarrow>
          if token = [] then (None, w)
          else (case get_hls_key remote zipurl token w of
                  (Inl e, w1) \<Rightarrow> (None, w1)
                | (Inr hls_key, w1) \<Rightarrow>
                    (case os_mkdir temp_dir (disk w1) of
                       Inl e \<Rightarrow> (None, w1)
                     | Inr fs1 \<Rightarrow>
                         (let (r, w2) = workspace_body remote unzip temp_dir zipurl hls_key
                                          (w1\<lparr>disk := fs1\<rparr>);
                              w3 = w2\<lparr>disk := rmtree temp_dir (disk w2)\<rparr>
                          in case r of
                               Inl e \<Rightarrow> (None, w3)
                             | Inr output_mkv_path \<Rightarrow> (Some output_mkv_path, w3)))))"

section \<open>The command handlers\<close>

definition answer :: "notice \<Rightarrow> world \<Rightarrow> world" where
  "answer n w = w\<lparr>outbox := outbox w @ [Answer n]\<rparr>"

definition set_api_token_handler :: "string option \<Rightarrow> world \<Rightarrow> world" where
  "set_api_token_handler args w =
     (case args of
        None \<Rightarrow> answer NeedToken w
      | Some a \<Rightarrow>
          if a = [] then answer NeedToken w
          else if length (split_on CHR ''.'' a) \<noteq> 3 then answer InvalidToken w
          else answer TokenSet (w\<lparr>api_token := Some (strip a)\<rparr>))"

text \<open>
  \<open>download_command_handler\<close>. \<open>deliverable\<close> says whether \<open>answer_document\<close> gets
  through; when it raises, the handler reports that and still removes the file.
\<close>

definition download_command_handler ::
  "remote \<Rightarrow> unzip \<Rightarrow> string \<Rightarrow> bool \<Rightarrow> string option \<Rightarrow> world \<Rightarrow> world" where
  "download_command_handler remote unzip temp_dir deliverable args w =
     (case args of
        None \<Rightarrow> answer NeedUrl w
      | Some a \<Rightarrow>
          if a = [] then answer NeedUrl w
          else if api_token w = None \<or> api_token w = Some [] then answer TokenNotSet w
          else (let zip_url = strip a in
                if \<not> (startswith zip_url ''http://'' \<or> startswith zip_url ''https://'')
                   \<or> \<not> endswith zip_url ''.zip''
                then answer InvalidUrl w
                else (case process_appx_zip_logic remote unzip temp_dir zip_url
                             (answer (Processing zip_url) w) of
                        (Some output_mkv_path, w1) \<Rightarrow>
                          (case (output_mkv_path \<noteq> [],
                                 lookup (disk w1) (path_parts output_mkv_path)) of
                             (True, Some n) \<Rightarrow>
                               (let w2 = (case (deliverable, n) of
                                            (True, File bytes) \<Rightarrow>
                                              w1\<lparr>outbox := outbox w1
                                                    @ [Document output_mkv_path bytes]\<rparr>
                                          | _ \<Rightarrow> answer SendFailed w1)
                                in case os_remove output_mkv_path (disk w2) of
                                     Inl e \<Rightarrow> w2
                                   | Inr fs' \<Rightarrow> w2\<lparr>disk := fs'\<rparr>)
                           | _ \<Rightarrow> answer Failed w1)
                      | (None, w1) \<Rightarrow> answer Failed w1)))"

section \<open>Files of a tree\<close>

text \<open>
  \<open>has_file t ns\<close>: going down from the directory \<open>t\<close> through the entries named
  \<open>ns\<close> ends at a file. \<open>count_files P t\<close> counts the files anywhere below \<open>t\<close>
  whose name satisfies \<open>P\<close>.
\<close>

inductive has_file :: "node \<Rightarrow> string list \<Rightarrow> bool" where
  here: "(name, File bytes) \<in> set es \<Longrightarrow> has_file (Dir es) [name]"
| below: "(name, sub) \<in> set es \<Longrightarrow> has_file sub ns \<Longrightarrow> has_file (Dir es) (name # ns)"

fun count_files :: "(string \<Rightarrow> bool) \<Rightarrow> node \<Rightarrow> nat" where
  "count_files P (File _) = 0"
| "count_files P (Dir es) =
     sum_list (map (\<lambda>(name, sub). case sub of
                                     File _ \<Rightarrow> (if P name then 1 else 0)
                                   | Dir _ \<Rightarrow> count_files P sub) es)"


section \<open>Example inputs\<close>

text \<open>
  A workspace after the archive of the end-to-end scenario has been expanded, and one
  holding a segment whose name carries the marker twice.
\<close>

definition example_tree :: node where
  "example_tree =
     Dir [(''tmp'', Dir [(''tmpab12cd34'', Dir
       [(''extracted'', Dir [(''seg1.tsa'', File ''s1''), (''seg2.tsa'', File ''s2''),
                            (''notes.txt'', File ''n'')]),
        (''downloaded.zip'', File ''PK'')])])]"

definition example_paths :: "string list" where
  "example_paths =
     [''/tmp/tmpab12cd34/extracted/seg1.tsa'', ''/tmp/tmpab12cd34/extracted/notes.txt'',
      ''/tmp/tmpab12cd34/extracted/gone.tsa'']"

definition twice_marked_tree :: node where
  "twice_marked_tree =
     Dir [(''tmp'', Dir [(''tmpab12cd34'', Dir
       [(''extracted'', Dir [(''seg.tsa.tsa'', File ''s1'')])])])]"

definition example_world :: world where
  "example_world =
     \<lparr>disk = Dir [(''tmp'', Dir [])], api_token = Some ''x.y.z'', requests = [], outbox = []\<rparr>"

definition example_url :: string where
  "example_url = ''https://host/archive-encrypted-deadbeef.zip''"

text \<open>
  A remote side that answers the key request with the given status and parsed body, and
  the download with a small archive.
\<close>

definition example_remote :: "nat \<Rightarrow> py \<Rightarrow> remote" where
  "example_remote code data req =
     (case req of
        POST url hdrs payload \<Rightarrow>
          Some \<lparr>status = code, text_value = Some ''body'', json_value = Some data,
                content = [], truncated = False\<rparr>
      | GET url \<Rightarrow>
          Some \<lparr>status = 200, text_value = None, json_value = None,
                content = ''PK'', truncated = False\<rparr>)"

definition example_unzip :: unzip where
  "example_unzip bytes target =
     (Dir [(''seg1.tsa'', File ''s1''), (''seg2.tsa'', File ''s2''), (''notes.txt'', File ''n'')],
      None)"


section \<open>Properties of the segment transformer\<close>

lemma decrypt_loop_append:
  "decrypt_loop (xs @ ys) st = decrypt_loop ys (decrypt_loop xs st)"
proof (induction xs arbitrary: st)
  case Nil
  show ?case by (cases st) simp
next
  case (Cons x xs)
  show ?case by (cases st) (simp add: Cons.IH Let_def split: sum.splits)
qed

lemma decrypt_loop_single:
  "decrypt_loop [x] (acc, fs) =
     (if endswith x ''.tsa'' then
        (case os_rename x (str_replace ''.tsa'' ''.mp4'' x) fs of
           Inr fs' \<Rightarrow> (acc @ [str_replace ''.tsa'' ''.mp4'' x], fs')
         | Inl e \<Rightarrow> (acc @ [x], fs))
      else (acc @ [x], fs))"
  by (simp add: Let_def split: sum.splits)

declare decrypt_loop.simps(2) [simp del]

lemma decrypt_loop_single_ex:
  "\<exists>y fs'. decrypt_loop [x] (acc, fs) = (acc @ [y], fs')"
  by (simp add: decrypt_loop_single split: sum.splits)

lemma decrypt_loop_extends:
  "\<exists>zs. fst (decrypt_loop xs (acc, fs)) = acc @ zs \<and> length zs = length xs"
proof (induction xs arbitrary: acc fs)
  case Nil
  show ?case by simp
next
  case (Cons x xs)
  obtain y fs' where one: "decrypt_loop [x] (acc, fs) = (acc @ [y], fs')"
    using decrypt_loop_single_ex by blast
  have eq: "decrypt_loop (x # xs) (acc, fs) = decrypt_loop xs (acc @ [y], fs')"
    using decrypt_loop_append [of "[x]" xs "(acc, fs)"] one by simp
  from Cons.IH [of "acc @ [y]" fs'] obtain zs
    where "fst (decrypt_loop xs (acc @ [y], fs')) = (acc @ [y]) @ zs" "length zs = length xs"
    by blast
  then have "fst (decrypt_loop (x # xs) (acc, fs)) = acc @ (y # zs) \<and> length (y # zs) = length (x # xs)"
    by (simp add: eq)
  then show ?case by blast
qed

lemma decrypt_loop_nth:
  assumes "i < length xs"
  shows "decrypt_loop xs ([], fs) =
           decrypt_loop (drop (Suc i) xs) (decrypt_loop [xs ! i] (decrypt_loop (take i xs) ([], fs)))"
proof -
  have "xs = take i xs @ [xs ! i] @ drop (Suc i) xs"
    using assms by (simp add: Cons_nth_drop_Suc)
  then have "decrypt_loop xs ([], fs) = decrypt_loop (take i xs @ [xs ! i] @ drop (Suc i) xs) ([], fs)"
    by simp
  then show ?thesis by (simp only: decrypt_loop_append)
qed

lemma decrypt_loop_take_Suc:
  assumes "i < length xs"
  shows "decrypt_loop (take (Suc i) xs) st = decrypt_loop [xs ! i] (decrypt_loop (take i xs) st)"
  using assms by (simp add: take_Suc_conv_app_nth decrypt_loop_append)

lemma decrypt_loop_at:
  assumes "i < length xs"
    and "decrypt_loop (take i xs) ([], fs) = (acc, fs1)"
    and "decrypt_loop [xs ! i] (acc, fs1) = (acc @ [y], fs2)"
  shows "fst (decrypt_loop xs ([], fs)) ! i = y"
proof -
  from decrypt_loop_extends [of "take i xs" "[]" fs] assms(1,2)
  have len: "length acc = i" by auto
  from decrypt_loop_extends [of "drop (Suc i) xs" "acc @ [y]" fs2] obtain zs
    where "fst (decrypt_loop (drop (Suc i) xs) (acc @ [y], fs2)) = (acc @ [y]) @ zs" by blast
  then have "fst (decrypt_loop xs ([], fs)) = acc @ y # zs"
    using decrypt_loop_nth [OF assms(1), of fs] assms(2,3) by simp
  then show ?thesis using len by (simp add: nth_append)
qed

text \<open>
  Claim C10. The transformer returns a list as long as its input and in the same order:
  position \<open>i\<close> of the output is the input path at \<open>i\<close> or its renamed form. A path
  that does not end in \<open>.tsa\<close> stays as it is at its position, and handling it leaves
  the file system as it was (no rename is made for it). A path whose rename raises stays
  at its position under its original name.
\<close>

theorem transformer_keeps_positions:
  fixes paths :: "string list" and hls_key :: 'k and fs :: node
  defines "out \<equiv> fst (decrypt_files_placeholder paths hls_key fs)"
  shows "length out = length paths \<and>
    (\<forall>i < length paths.
       let before = snd (decrypt_files_placeholder (take i paths) hls_key fs);
           after = snd (decrypt_files_placeholder (take (Suc i) paths) hls_key fs);
           decrypted = str_replace ''.tsa'' ''.mp4'' (paths ! i)
       in (out ! i = paths ! i \<or> out ! i = decrypted) \<and>
          (\<not> endswith (paths ! i) ''.tsa'' \<longrightarrow> out ! i = paths ! i \<and> after = before) \<and>
          (\<forall>e. os_rename (paths ! i) decrypted before = Inl e \<longrightarrow>
                 out ! i = paths ! i \<and> after = before))"
proof -
  have len: "length out = length paths"
    using decrypt_loop_extends [of paths "[]" fs]
    by (auto simp: out_def decrypt_files_placeholder_def)
  have pos: "(let before = snd (decrypt_files_placeholder (take i paths) hls_key fs);
           after = snd (decrypt_files_placeholder (take (Suc i) paths) hls_key fs);
           decrypted = str_replace ''.tsa'' ''.mp4'' (paths ! i)
       in (out ! i = paths ! i \<or> out ! i = decrypted) \<and>
          (\<not> endswith (paths ! i) ''.tsa'' \<longrightarrow> out ! i = paths ! i \<and> after = before) \<and>
          (\<forall>e. os_rename (paths ! i) decrypted before = Inl e \<longrightarrow>
                 out ! i = paths ! i \<and> after = before))" if i: "i < length paths" for i
  proof -
    obtain acc fs1 where st: "decrypt_loop (take i paths) ([], fs) = (acc, fs1)"
      by (cases "decrypt_loop (take i paths) ([], fs)")
    define x where "x = paths ! i"
    define d where "d = str_replace ''.tsa'' ''.mp4'' x"
    have nxt: "decrypt_loop (take (Suc i) paths) ([], fs) = decrypt_loop [x] (acc, fs1)"
      using decrypt_loop_take_Suc [OF i, of "([], fs)"] st by (simp add: x_def)
    show ?thesis
    proof (cases "endswith x ''.tsa''")
      case False
      then have one: "decrypt_loop [x] (acc, fs1) = (acc @ [x], fs1)"
        by (simp add: decrypt_loop_single)
      have "out ! i = x"
        using decrypt_loop_at [OF i st, of x fs1] one
        by (simp add: out_def decrypt_files_placeholder_def x_def)
      then show ?thesis
        using False st nxt one
        by (simp add: decrypt_files_placeholder_def Let_def x_def)
    next
      case True
      show ?thesis
      proof (cases "os_rename x d fs1")
        case (Inl e)
        then have one: "decrypt_loop [x] (acc, fs1) = (acc @ [x], fs1)"
          using True by (simp add: decrypt_loop_single d_def)
        have "out ! i = x"
          using decrypt_loop_at [OF i st, of x fs1] one
          by (simp add: out_def decrypt_files_placeholder_def x_def)
        then show ?thesis
          using True st nxt one
          by (simp add: decrypt_files_placeholder_def Let_def x_def)
      next
        case (Inr fs2)
        then have one: "decrypt_loop [x] (acc, fs1) = (acc @ [d], fs2)"
          using True by (simp add: decrypt_loop_single d_def)
        have "out ! i = d"
          using decrypt_loop_at [OF i st, of d fs2] one
          by (simp add: out_def decrypt_files_placeholder_def x_def)
        then show ?thesis
          using True st nxt one Inr
          by (simp add: decrypt_files_placeholder_def Let_def x_def d_def)
      qed
    qed
  qed
  show ?thesis using len pos by blast
qed

theorem transformer_keeps_positions_witness:
  "(1::nat) < length example_paths \<and> \<not> endswith (example_paths ! 1) ''.tsa'' \<and>
   (2::nat) < length example_paths \<and>
   os_rename (example_paths ! 2) (str_replace ''.tsa'' ''.mp4'' (example_paths ! 2))
     (snd (decrypt_files_placeholder (take 2 example_paths) ''abc123'' example_tree))
     = Inl OSError \<and>
   length (fst (decrypt_files_placeholder example_paths ''abc123'' example_tree)) = 3 \<and>
   fst (decrypt_files_placeholder example_paths ''abc123'' example_tree) ! 1
     = example_paths ! 1 \<and>
   fst (decrypt_files_placeholder example_paths ''abc123'' example_tree) ! 2
     = example_paths ! 2"
proof -
  have len: "length example_paths = 3"
    by (simp add: example_paths_def)
  have h1: "\<not> endswith (example_paths ! 1) ''.tsa''"
    by code_simp
  have h2: "os_rename (example_paths ! 2) (str_replace ''.tsa'' ''.mp4'' (example_paths ! 2))
     (snd (decrypt_files_placeholder (take (Suc (Suc 0)) example_paths) ''abc123'' example_tree))
     = Inl OSError"
    by code_simp
  have two: "(2::nat) = Suc (Suc 0)" and one: "(1::nat) = Suc 0"
    by simp_all
  from transformer_keeps_positions [of example_paths "''abc123''" example_tree]
  have all: "length (fst (decrypt_files_placeholder example_paths ''abc123'' example_tree)) = 3"
    and at: "\<And>i. i < 3 \<Longrightarrow>
      (\<not> endswith (example_paths ! i) ''.tsa'' \<longrightarrow>
         fst (decrypt_files_placeholder example_paths ''abc123'' example_tree) ! i
           = example_paths ! i) \<and>
      (\<forall>e. os_rename (example_paths ! i) (str_replace ''.tsa'' ''.mp4'' (example_paths ! i))
              (snd (decrypt_files_placeholder (take i example_paths) ''abc123'' example_tree))
              = Inl e \<longrightarrow>
         fst (decrypt_files_placeholder example_paths ''abc123'' example_tree) ! i
           = example_paths ! i)"
    by (simp_all add: len Let_def)
  from at [of "Suc 0"] h1 have r1:
    "fst (decrypt_files_placeholder example_paths ''abc123'' example_tree) ! 1 = example_paths ! 1"
    by (simp add: one)
  from at [of "Suc (Suc 0)"] h2 have r2:
    "fst (decrypt_files_placeholder example_paths ''abc123'' example_tree) ! 2 = example_paths ! 2"
    by (simp add: two)
  show ?thesis
    using len all h1 h2 r1 r2 by (simp add: two)
qed

text \<open>
  Claim C9. The transformer does not look at the key: with the same paths and the same
  file system, any two keys give the same list of paths and the same file system, hence
  the same renames.
\<close>

theorem transformer_ignores_key:
  "decrypt_files_placeholder paths k1 fs = decrypt_files_placeholder paths k2 fs"
  by (simp add: decrypt_files_placeholder_def)

text \<open>
  Claim C3 says that a path ending in \<open>.tsa\<close> is renamed to the same path with that
  extension swapped for \<open>.mp4\<close> and the rest unchanged. The code calls
  \<open>filepath.replace('.tsa', '.mp4')\<close>, which rewrites every occurrence of the marker:
  the segment \<open>seg.tsa.tsa\<close> becomes \<open>seg.mp4.mp4\<close>, not \<open>seg.tsa.mp4\<close>.
\<close>

theorem transformer_rewrites_every_marker:
  "decrypt_files_placeholder [''/tmp/tmpab12cd34/extracted/seg.tsa.tsa''] ''abc123''
     twice_marked_tree
   = ([''/tmp/tmpab12cd34/extracted/seg.mp4.mp4''],
      Dir [(''tmp'', Dir [(''tmpab12cd34'', Dir
        [(''extracted'', Dir [(''seg.mp4.mp4'', File ''s1'')])])])])"
  by code_simp

section \<open>Properties of the command handlers and the key resolver\<close>

lemma strip_no_surrounding_space:
  assumes "a \<noteq> []" "\<not> isspace (hd a)" "\<not> isspace (last a)"
  shows "strip a = a"
proof -
  have "dropWhile isspace a = a"
    using assms by (simp add: dropWhile_eq_self_iff)
  moreover have "dropWhile isspace (rev a) = rev a"
    using assms by (simp add: dropWhile_eq_self_iff hd_rev)
  ultimately show ?thesis by (simp add: strip_def)
qed

text \<open>
  Claim C8. When splitting the argument at the dots gives exactly three segments,
  \<open>set_api_token\<close> succeeds and the global token becomes the argument (stripped of
  surrounding white space, so the argument itself when it has none), whatever it was
  before. Otherwise the command is refused and the token stays as it was.
\<close>

theorem set_api_token_three_segments:
  "(length (split_on CHR ''.'' a) = 3 \<longrightarrow>
      api_token (set_api_token_handler (Some a) w) = Some (strip a) \<and>
      (\<not> isspace (hd a) \<and> \<not> isspace (last a) \<longrightarrow>
         api_token (set_api_token_handler (Some a) w) = Some a) \<and>
      outbox (set_api_token_handler (Some a) w) = outbox w @ [Answer TokenSet]) \<and>
   (length (split_on CHR ''.'' a) \<noteq> 3 \<longrightarrow>
      api_token (set_api_token_handler (Some a) w) = api_token w \<and>
      (outbox (set_api_token_handler (Some a) w) = outbox w @ [Answer InvalidToken] \<or>
       outbox (set_api_token_handler (Some a) w) = outbox w @ [Answer NeedToken]))"
proof -
  have ne: "a \<noteq> []" if "length (split_on CHR ''.'' a) = 3"
    using that by auto
  show ?thesis
    using ne strip_no_surrounding_space [of a]
    by (auto simp: set_api_token_handler_def answer_def)
qed

theorem set_api_token_three_segments_witness:
  "length (split_on CHR ''.'' ''a.b.c'') = 3 \<and>
   api_token (set_api_token_handler (Some ''a.b.c'') example_world) = Some ''a.b.c'' \<and>
   length (split_on CHR ''.'' ''not.a.jwt.token'') \<noteq> 3 \<and>
   api_token (set_api_token_handler (Some ''not.a.jwt.token'') example_world) = Some ''x.y.z''"
proof -
  have h1: "length (split_on CHR ''.'' ''a.b.c'') = 3"
    by code_simp
  have h2: "length (split_on CHR ''.'' ''not.a.jwt.token'') \<noteq> 3"
    by code_simp
  have h3: "\<not> isspace (hd ''a.b.c'') \<and> \<not> isspace (last ''a.b.c'')"
    by code_simp
  have r1: "api_token (set_api_token_handler (Some ''a.b.c'') example_world) = Some ''a.b.c''"
    using set_api_token_three_segments [of "''a.b.c''" example_world] h1 h3 by blast
  have r2: "api_token (set_api_token_handler (Some ''not.a.jwt.token'') example_world)
              = api_token example_world"
    using set_api_token_three_segments [of "''not.a.jwt.token''" example_world] h2 by blast
  show ?thesis using h1 h2 r1 r2 by (simp add: example_world_def)
qed

text \<open>
  Claim C7. With no token set (the global is \<open>None\<close> or empty), the run returns
  \<open>None\<close> at once and leaves the world as it was: no request has been issued, neither
  the key fetch nor the download.
\<close>

theorem run_without_token:
  "api_token w = None \<or> api_token w = Some [] \<Longrightarrow>
   process_appx_zip_logic remote unzip temp_dir zipurl w = (None, w) \<and>
   requests (snd (process_appx_zip_logic remote unzip temp_dir zipurl w)) = requests w"
  by (auto simp: process_appx_zip_logic_def)

theorem run_without_token_witness:
  "api_token (example_world\<lparr>api_token := None\<rparr>) = None \<and>
   process_appx_zip_logic (example_remote 200 (PyDict [(''key'', PyStr ''abc123'')]))
     example_unzip ''/tmp/tmpab12cd34'' example_url (example_world\<lparr>api_token := None\<rparr>)
   = (None, example_world\<lparr>api_token := None\<rparr>)"
  using run_without_token [of "example_world\<lparr>api_token := None\<rparr>"
      "example_remote 200 (PyDict [(''key'', PyStr ''abc123'')])"
      example_unzip "''/tmp/tmpab12cd34''" example_url]
  by simp

lemma re_search_here:
  assumes "encrypted_id_at s [] hs post" "post = [] \<or> \<not> is_hex (hd post)"
  shows "re_search_encrypted s = Some (''encrypted-'' @ hs)"
proof -
  have s: "s = ''encrypted-'' @ hs @ post" and ne: "hs \<noteq> []" and hex: "\<forall>c \<in> set hs. is_hex c"
    using assms(1) by (simp_all add: encrypted_id_at_def)
  have "takeWhile is_hex (hs @ post) = hs"
    using hex assms(2) by (cases post) simp_all
  then show ?thesis
    using ne by (subst re_search_encrypted.simps) (simp add: s)
qed

lemma re_search_skip:
  assumes "\<not> (prefix ''encrypted-'' (c # cs) \<and> takeWhile is_hex (drop 10 (c # cs)) \<noteq> [])"
  shows "re_search_encrypted (c # cs) = re_search_encrypted cs"
  using assms by (subst re_search_encrypted.simps) auto

lemma match_here_decomp:
  assumes "prefix ''encrypted-'' s" "takeWhile is_hex (drop 10 s) \<noteq> []"
  shows "encrypted_id_at s [] (takeWhile is_hex (drop 10 s)) (dropWhile is_hex (drop 10 s))"
proof -
  from assms(1) obtain r where s: "s = ''encrypted-'' @ r"
    unfolding prefix_def by (elim exE)
  then have d: "drop 10 s = r" by simp
  have "\<forall>c \<in> set (takeWhile is_hex r). is_hex c"
    by (auto dest: set_takeWhileD)
  then show ?thesis
    using assms(2) by (simp add: encrypted_id_at_def d) (simp add: s)
qed

lemma decomp_match_here:
  assumes "encrypted_id_at s [] hs post"
  shows "prefix ''encrypted-'' s \<and> takeWhile is_hex (drop 10 s) \<noteq> []"
proof -
  obtain h hs' where "hs = h # hs'" "is_hex h"
    using assms by (cases hs) (simp_all add: encrypted_id_at_def)
  then show ?thesis using assms by (simp add: encrypted_id_at_def)
qed

lemma encrypted_id_at_Cons:
  "encrypted_id_at (c # cs) (c # pre) hs post \<longleftrightarrow> encrypted_id_at cs pre hs post"
  by (simp add: encrypted_id_at_def)

lemma re_search_some:
  "re_search_encrypted s = Some m \<Longrightarrow> \<exists>pre hs post. encrypted_id_at s pre hs post"
proof (induction s)
  case Nil
  then show ?case by (subst (asm) re_search_encrypted.simps) simp
next
  case (Cons c cs)
  show ?case
  proof (cases "prefix ''encrypted-'' (c # cs) \<and> takeWhile is_hex (drop 10 (c # cs)) \<noteq> []")
    case True
    then show ?thesis using match_here_decomp [of "c # cs"] by blast
  next
    case False
    then have "re_search_encrypted cs = Some m"
      using Cons.prems re_search_skip [of c cs] by simp
    from Cons.IH [OF this] obtain pre hs post where "encrypted_id_at cs pre hs post"
      by blast
    then have "encrypted_id_at (c # cs) (c # pre) hs post"
      by (simp add: encrypted_id_at_Cons)
    then show ?thesis by blast
  qed
qed

lemma re_search_first:
  assumes "encrypted_id_at s pre hs post"
    and "post = [] \<or> \<not> is_hex (hd post)"
    and "\<forall>pre' hs' post'. encrypted_id_at s pre' hs' post' \<longrightarrow> length pre \<le> length pre'"
  shows "re_search_encrypted s = Some (''encrypted-'' @ hs)"
  using assms
proof (induction pre arbitrary: s)
  case Nil
  then show ?case using re_search_here [of s hs post] by simp
next
  case (Cons c pre)
  obtain s' where s: "s = c # s'"
    using Cons.prems(1) by (simp add: encrypted_id_at_def)
  have nohere: "\<not> (prefix ''encrypted-'' (c # s') \<and> takeWhile is_hex (drop 10 (c # s')) \<noteq> [])"
  proof
    assume "prefix ''encrypted-'' (c # s') \<and> takeWhile is_hex (drop 10 (c # s')) \<noteq> []"
    then have "\<exists>hs' post'. encrypted_id_at (c # s') [] hs' post'"
      using match_here_decomp [of "c # s'"] by blast
    then have "length (c # pre) \<le> length ([]::string)"
      using Cons.prems(3) s by blast
    then show False by simp
  qed
  have here: "encrypted_id_at s' pre hs post"
    using Cons.prems(1) by (simp add: s encrypted_id_at_Cons)
  have min': "\<forall>pre' hs' post'. encrypted_id_at s' pre' hs' post' \<longrightarrow> length pre \<le> length pre'"
  proof (intro allI impI)
    fix pre' hs' post'
    assume "encrypted_id_at s' pre' hs' post'"
    then have "encrypted_id_at s (c # pre') hs' post'"
      by (simp add: s encrypted_id_at_Cons)
    then have "length (c # pre) \<le> length (c # pre')"
      using Cons.prems(3) by blast
    then show "length pre \<le> length pre'" by simp
  qed
  have "re_search_encrypted s' = Some (''encrypted-'' @ hs)"
    using Cons.IH [OF here Cons.prems(2) min'] .
  then show ?case using re_search_skip [OF nohere] s by simp
qed

lemma get_hls_key_world:
  assumes "re_search_encrypted zipurl = Some encryption_id"
  shows "snd (get_hls_key remote zipurl token w)
           = w\<lparr>requests := requests w
                @ [POST api_url (headers token) (PyDict [(''id'', PyStr encryption_id)])]\<rparr>"
  using assms by (simp add: get_hls_key_def Let_def split: option.split sum.split)

lemma re_search_complete:
  "encrypted_id_at s pre hs post \<Longrightarrow> re_search_encrypted s \<noteq> None"
proof (induction pre arbitrary: s)
  case Nil
  then have "prefix ''encrypted-'' s \<and> takeWhile is_hex (drop 10 s) \<noteq> []"
    by (rule decomp_match_here)
  then show ?case by (subst re_search_encrypted.simps) simp
next
  case (Cons c pre)
  obtain s' where s: "s = c # s'"
    using Cons.prems by (simp add: encrypted_id_at_def)
  have "re_search_encrypted s' \<noteq> None"
    using Cons.prems Cons.IH [of s'] by (simp add: s encrypted_id_at_Cons)
  then show ?case
    by (subst re_search_encrypted.simps) (simp add: s)
qed

text \<open>
  Claim C4. A URL with no substring of the form \<open>encrypted-\<close> followed by at least one
  lowercase hexadecimal character makes \<open>get_hls_key\<close> raise \<open>ValueError\<close> (the
  spec's MalformedUrl) and leaves the world as it was, so no request is issued. When
  there is such a substring, the id sent to the key service is the leftmost one, with
  its whole hexadecimal run.
\<close>

theorem get_hls_key_encryption_id:
  "(\<not> (\<exists>pre hs post. zipurl = pre @ ''encrypted-'' @ hs @ post \<and> hs \<noteq> [] \<and> (\<forall>c \<in> set hs. is_hex c))
      \<longrightarrow> get_hls_key remote zipurl token w = (Inl ValueError, w)) \<and>
   (\<forall>pre hs post.
      (zipurl = pre @ ''encrypted-'' @ hs @ post \<and> hs \<noteq> [] \<and> (\<forall>c \<in> set hs. is_hex c)) \<and>
      (post = [] \<or> \<not> is_hex (hd post)) \<and>
      (\<forall>pre' hs' post'. (zipurl = pre' @ ''encrypted-'' @ hs' @ post' \<and> hs' \<noteq> [] \<and>
          (\<forall>c \<in> set hs'. is_hex c)) \<longrightarrow> length pre \<le> length pre')
      \<longrightarrow> requests (snd (get_hls_key remote zipurl token w))
            = requests w @ [POST api_url (headers token) (PyDict [(''id'', PyStr (''encrypted-'' @ hs))])])"
  unfolding encrypted_id_at_def [symmetric]
proof (intro conjI impI allI)
  assume "\<not> (\<exists>pre hs post. encrypted_id_at zipurl pre hs post)"
  then have "re_search_encrypted zipurl = None"
    using re_search_some [of zipurl] by (cases "re_search_encrypted zipurl") auto
  then show "get_hls_key remote zipurl token w = (Inl ValueError, w)"
    by (simp add: get_hls_key_def)
next
  fix pre hs post
  assume a: "encrypted_id_at zipurl pre hs post \<and>
      (post = [] \<or> \<not> is_hex (hd post)) \<and>
      (\<forall>pre' hs' post'. encrypted_id_at zipurl pre' hs' post' \<longrightarrow> length pre \<le> length pre')"
  then have "re_search_encrypted zipurl = Some (''encrypted-'' @ hs)"
    by (intro re_search_first [of zipurl pre hs post]) simp_all
  then show "requests (snd (get_hls_key remote zipurl token w))
            = requests w @ [POST api_url (headers token) (PyDict [(''id'', PyStr (''encrypted-'' @ hs))])]"
    using get_hls_key_world [of zipurl "''encrypted-'' @ hs" remote token w] by simp
qed

theorem get_hls_key_encryption_id_witness:
  "\<not> (\<exists>pre hs post. ''https://host/archive.zip'' = pre @ ''encrypted-'' @ hs @ post \<and> hs \<noteq> []
        \<and> (\<forall>c \<in> set hs. is_hex c)) \<and>
   get_hls_key (example_remote 200 (PyDict [(''key'', PyInt 5)])) ''https://host/archive.zip'' ''a.b.c'' example_world
     = (Inl ValueError, example_world) \<and>
   requests (snd (get_hls_key (example_remote 200 (PyDict [(''key'', PyInt 5)])) ''encrypted-ab/encrypted-cd'' ''a.b.c''
                    example_world))
     = requests example_world
       @ [POST api_url (headers ''a.b.c'') (PyDict [(''id'', PyStr ''encrypted-ab'')])]"
proof -
  have none: "re_search_encrypted ''https://host/archive.zip'' = None"
    by code_simp
  have h1: "\<not> (\<exists>pre hs post. ''https://host/archive.zip'' = pre @ ''encrypted-'' @ hs @ post
        \<and> hs \<noteq> [] \<and> (\<forall>c \<in> set hs. is_hex c))"
    unfolding encrypted_id_at_def [symmetric]
    using re_search_complete none by blast
  have h2: "(''encrypted-ab/encrypted-cd'' = [] @ ''encrypted-'' @ ''ab'' @ ''/encrypted-cd''
        \<and> ''ab'' \<noteq> [] \<and> (\<forall>c \<in> set ''ab''. is_hex c)) \<and>
      (''/encrypted-cd'' = [] \<or> \<not> is_hex (hd ''/encrypted-cd'')) \<and>
      (\<forall>pre' hs' post'. (''encrypted-ab/encrypted-cd'' = pre' @ ''encrypted-'' @ hs' @ post'
          \<and> hs' \<noteq> [] \<and> (\<forall>c \<in> set hs'. is_hex c)) \<longrightarrow> length ([]::string) \<le> length pre')"
    by (simp add: is_hex_def)
  have r1: "get_hls_key (example_remote 200 (PyDict [(''key'', PyInt 5)])) ''https://host/archive.zip'' ''a.b.c'' example_world
     = (Inl ValueError, example_world)"
    using get_hls_key_encryption_id [of "''https://host/archive.zip''" "example_remote 200 (PyDict [(''key'', PyInt 5)])"
        "''a.b.c''" example_world] h1
    by (elim conjE impE)
  have r2: "requests (snd (get_hls_key (example_remote 200 (PyDict [(''key'', PyInt 5)])) ''encrypted-ab/encrypted-cd'' ''a.b.c''
                    example_world))
     = requests example_world
       @ [POST api_url (headers ''a.b.c'') (PyDict [(''id'', PyStr (''encrypted-'' @ ''ab''))])]"
    using get_hls_key_encryption_id [of "''encrypted-ab/encrypted-cd''" "example_remote 200 (PyDict [(''key'', PyInt 5)])"
        "''a.b.c''" example_world, THEN conjunct2, rule_format, of "[]" "''ab''" "''/encrypted-cd''",
        OF h2] .
  show ?thesis using h1 r1 r2 by simp
qed

text \<open>
  Claim C5 says that every response with a success status whose body has a non-empty
  \<open>key\<close> gives that value back. With the body \<open>{"key": 5}\<close> the truthy key is a
  number, the preview \<open>key[:10]\<close> for the log raises \<open>TypeError\<close>, and nothing is
  returned.
\<close>

theorem get_hls_key_number_key_counterexample:
  "fst (get_hls_key (example_remote 200 (PyDict [(''key'', PyInt 5)])) example_url ''a.b.c''
          example_world)
   = Inl TypeError"
  by code_simp

text \<open>
  Claim C5, amended. For a response to the key request whose text decodes: a status of
  400 or more raises \<open>ClientResponseError\<close> (UpstreamError). With a status below 400
  and a body that parses to a JSON object: when the object has no \<open>key\<close> or a falsy
  one (null, false, zero, empty), \<open>KeyError\<close> (MissingKey) is raised; when \<open>key\<close> is
  a non-empty string or list, that value is returned.
\<close>

theorem get_hls_key_response:
  assumes "re_search_encrypted zipurl = Some encryption_id"
    and "remote (POST api_url (headers token) (PyDict [(''id'', PyStr encryption_id)])) = Some response"
    and "text_value response = Some body"
  shows "(400 \<le> status response \<longrightarrow>
            fst (get_hls_key remote zipurl token w) = Inl ClientResponseError) \<and>
         (status response < 400 \<longrightarrow>
            (\<forall>kvs. json_value response = Some (PyDict kvs) \<longrightarrow>
               ((\<forall>v. map_of kvs ''key'' = Some v \<longrightarrow> \<not> truthy v) \<longrightarrow>
                  fst (get_hls_key remote zipurl token w) = Inl KeyError) \<and>
               (\<forall>v. map_of kvs ''key'' = Some v \<and> truthy v \<and>
                     ((\<exists>s. v = PyStr s) \<or> (\<exists>xs. v = PyList xs)) \<longrightarrow>
                  fst (get_hls_key remote zipurl token w) = Inr v)))"
  using assms
  by (auto simp: get_hls_key_def Let_def split: option.splits)

theorem get_hls_key_response_witness:
  "re_search_encrypted example_url = Some ''encrypted-deadbeef'' \<and>
   fst (get_hls_key (example_remote 200 (PyDict [(''key'', PyStr ''abc123'')])) example_url
          ''a.b.c'' example_world) = Inr (PyStr ''abc123'') \<and>
   fst (get_hls_key (example_remote 200 (PyDict [(''error'', PyStr ''no'')])) example_url
          ''a.b.c'' example_world) = Inl KeyError \<and>
   fst (get_hls_key (example_remote 503 (PyDict [(''key'', PyStr ''abc123'')])) example_url
          ''a.b.c'' example_world) = Inl ClientResponseError"
proof -
  have url: "re_search_encrypted example_url = Some ''encrypted-deadbeef''"
    by code_simp
  have reply: "example_remote code data
      (POST api_url (headers ''a.b.c'') (PyDict [(''id'', PyStr ''encrypted-deadbeef'')]))
    = Some \<lparr>status = code, text_value = Some ''body'', json_value = Some data,
            content = [], truncated = False\<rparr>" for code data
    by (simp add: example_remote_def)
  have r1: "fst (get_hls_key (example_remote 200 (PyDict [(''key'', PyStr ''abc123'')]))
                  example_url ''a.b.c'' example_world) = Inr (PyStr ''abc123'')"
    using get_hls_key_response [where zipurl = example_url
        and encryption_id = "''encrypted-deadbeef''" and token = "''a.b.c''"
        and remote = "example_remote 200 (PyDict [(''key'', PyStr ''abc123'')])" and body = "''body''"
        and w = example_world, OF url reply]
    by simp
  have r2: "fst (get_hls_key (example_remote 200 (PyDict [(''error'', PyStr ''no'')]))
                  example_url ''a.b.c'' example_world) = Inl KeyError"
    using get_hls_key_response [where zipurl = example_url
        and encryption_id = "''encrypted-deadbeef''" and token = "''a.b.c''"
        and remote = "example_remote 200 (PyDict [(''error'', PyStr ''no'')])" and body = "''body''"
        and w = example_world, OF url reply]
    by simp
  have r3: "fst (get_hls_key (example_remote 503 (PyDict [(''key'', PyStr ''abc123'')]))
                  example_url ''a.b.c'' example_world) = Inl ClientResponseError"
    using get_hls_key_response [where zipurl = example_url
        and encryption_id = "''encrypted-deadbeef''" and token = "''a.b.c''"
        and remote = "example_remote 503 (PyDict [(''key'', PyStr ''abc123'')])" and body = "''body''"
        and w = example_world, OF url reply]
    by simp
  show ?thesis using url r1 r2 r3 by simp
qed

section \<open>Properties of the file system and the paths\<close>

lemma lookup_append:
  "lookup fs (ps @ qs) = (case lookup fs ps of None \<Rightarrow> None | Some n \<Rightarrow> lookup n qs)"
proof (induction ps arbitrary: fs)
  case Nil
  show ?case by simp
next
  case (Cons c ps)
  show ?case by (cases fs) (simp_all add: Cons.IH split: option.splits)
qed

lemma lookup_del_below:
  "ps \<noteq> [] \<Longrightarrow> lookup (del ps fs) (ps @ qs) = None"
proof (induction ps fs rule: del.induct)
  case (1 n)
  then show ?case by simp
next
  case (2 c cs x)
  show ?case by simp
next
  case (3 c es)
  show ?case by (simp add: delete_conv')
next
  case (4 c v va es)
  then show ?case by (simp add: update_conv' split: option.splits)
qed

lemma lookup_put_same:
  "put ps new fs = Some fs' \<Longrightarrow> lookup fs' ps = Some new"
proof (induction ps new fs arbitrary: fs' rule: put.induct)
  case (1 new n)
  then show ?case by simp
next
  case (2 c cs new x)
  then show ?case by simp
next
  case (3 c new es)
  then show ?case by (auto simp: update_conv')
next
  case (4 c v va new es)
  then show ?case by (auto simp: update_conv' split: option.splits)
qed

lemma split_on_append:
  "split_on sep (a @ sep # b) = split_on sep a @ split_on sep b"
proof (induction a)
  case Nil
  show ?case by simp
next
  case (Cons c a)
  have ne: "split_on sep a \<noteq> []" for a
    by (induction a) (auto split: list.splits)
  show ?case
    using ne [of a] by (cases "split_on sep a") (simp_all add: Cons.IH)
qed

lemma path_parts_slash:
  "path_parts (a @ ''/'' @ b) = path_parts a @ path_parts b"
  by (simp add: path_parts_def split_on_append)

lemma path_parts_join:
  assumes "\<not> startswith b ''/''"
  shows "path_parts (os_path_join a b) = path_parts a @ path_parts b"
proof (cases "a = [] \<or> endswith a ''/''")
  case False
  then show ?thesis
    using assms path_parts_slash [of a b] by (simp add: os_path_join_def)
next
  case True
  show ?thesis
  proof (cases "a = []")
    case True
    then show ?thesis using assms by (simp add: os_path_join_def path_parts_def)
  next
    case False
    with True obtain a' where a: "a = a' @ ''/''"
      by (auto simp: endswith_def suffix_def)
    have "path_parts (a' @ ''/'' @ b) = path_parts a' @ path_parts b"
      by (rule path_parts_slash)
    moreover have "path_parts (a' @ ''/'' @ []) = path_parts a' @ path_parts []"
      by (rule path_parts_slash)
    ultimately show ?thesis
      using assms True by (simp add: os_path_join_def a path_parts_def)
  qed
qed

lemma os_mkdir_not_root:
  "os_mkdir p fs = Inr fs' \<Longrightarrow> path_parts p \<noteq> []"
  by (auto simp: os_mkdir_def)

lemma run_after_allocation:
  assumes "api_token w = Some token" "token \<noteq> []"
    and "get_hls_key remote zipurl token w = (Inr hls_key, w1)"
    and "os_mkdir temp_dir (disk w1) = Inr fs1"
    and "workspace_body remote unzip temp_dir zipurl hls_key (w1\<lparr>disk := fs1\<rparr>) = (r, w2)"
  shows "process_appx_zip_logic remote unzip temp_dir zipurl w =
           ((case r of Inl e \<Rightarrow> None | Inr p \<Rightarrow> Some p),
            w2\<lparr>disk := rmtree temp_dir (disk w2)\<rparr>)"
  using assms by (simp add: process_appx_zip_logic_def split: sum.splits)

lemma workspace_body_path:
  assumes "workspace_body remote unzip temp_dir zipurl hls_key w = (Inr p, w')"
  shows "p = os_path_join (os_path_join temp_dir ''extracted'') ''simulated_output.mkv''"
proof -
  have "process_final_output_placeholder d v = (Inr p, w') \<Longrightarrow>
        p = os_path_join d ''simulated_output.mkv''" for d v
    by (auto simp: process_final_output_placeholder_def Let_def split: sum.splits)
  then show ?thesis
    using assms
    by (auto simp: workspace_body_def Let_def split: sum.splits prod.splits if_splits)
qed

lemma output_path_parts:
  "path_parts (os_path_join (os_path_join temp_dir ''extracted'') ''simulated_output.mkv'')
     = path_parts temp_dir @ [''extracted'', ''simulated_output.mkv'']"
proof -
  have a: "\<not> startswith ''extracted'' ''/''" and b: "\<not> startswith ''simulated_output.mkv'' ''/''"
    by (simp_all add: startswith_def)
  have c: "path_parts ''extracted'' = [''extracted'']"
    and d: "path_parts ''simulated_output.mkv'' = [''simulated_output.mkv'']"
    by (simp_all add: path_parts_def)
  show ?thesis
    by (simp add: path_parts_join [OF b] path_parts_join [OF a] c d)
qed

lemma run_some_cases:
  assumes "process_appx_zip_logic remote unzip temp_dir zipurl w = (Some p, w')"
  obtains token hls_key w1 fs1 w2 where
    "api_token w = Some token" "token \<noteq> []"
    "get_hls_key remote zipurl token w = (Inr hls_key, w1)"
    "os_mkdir temp_dir (disk w1) = Inr fs1"
    "workspace_body remote unzip temp_dir zipurl hls_key (w1\<lparr>disk := fs1\<rparr>) = (Inr p, w2)"
    "w' = w2\<lparr>disk := rmtree temp_dir (disk w2)\<rparr>"
  using assms
  by (auto simp: process_appx_zip_logic_def Let_def split: option.splits if_splits sum.splits prod.splits)

lemma returned_path_is_removed:
  assumes "process_appx_zip_logic remote unzip temp_dir zipurl w = (Some p, w')"
  shows "lookup (disk w') (path_parts p) = None"
proof -
  from assms obtain token hls_key w1 fs1 w2 where
    mk: "os_mkdir temp_dir (disk w1) = Inr fs1"
    and body: "workspace_body remote unzip temp_dir zipurl hls_key (w1\<lparr>disk := fs1\<rparr>) = (Inr p, w2)"
    and w': "w' = w2\<lparr>disk := rmtree temp_dir (disk w2)\<rparr>"
    by (rule run_some_cases)
  have p: "path_parts p = path_parts temp_dir @ [''extracted'', ''simulated_output.mkv'']"
    using workspace_body_path [OF body] output_path_parts by simp
  show ?thesis
    using os_mkdir_not_root [OF mk] by (simp add: w' p rmtree_def lookup_del_below)
qed

lemma put_Cons_Dir:
  "cs \<noteq> [] \<Longrightarrow> put (c # cs) new (Dir es) =
     (case map_of es c of
        None \<Rightarrow> None
      | Some n \<Rightarrow> (case put cs new n of None \<Rightarrow> None
                   | Some n' \<Rightarrow> Some (Dir (AList.update c n' es))))"
  by (cases cs) (auto split: option.splits)

lemma put_child:
  "lookup fs ps = Some (Dir es) \<Longrightarrow>
   \<exists>fs'. put (ps @ [c]) new fs = Some fs' \<and> lookup fs' ps = Some (Dir (AList.update c new es))"
proof (induction ps arbitrary: fs)
  case Nil
  then show ?case by simp
next
  case (Cons a ps)
  then obtain es0 m where fs: "fs = Dir es0" and a: "map_of es0 a = Some m"
    and m: "lookup m ps = Some (Dir es)"
    by (cases fs) (auto split: option.splits)
  from Cons.IH [OF m] obtain m' where
    m': "put (ps @ [c]) new m = Some m'" "lookup m' ps = Some (Dir (AList.update c new es))"
    by blast
  have "put ((a # ps) @ [c]) new fs = Some (Dir (AList.update a m' es0))"
    using a m'(1) by (simp add: fs put_Cons_Dir)
  moreover have "lookup (Dir (AList.update a m' es0)) (a # ps) = Some (Dir (AList.update c new es))"
    using m'(2) by (simp add: update_conv')
  ultimately show ?case by blast
qed

lemma makedirs_existing:
  "lookup fs ps = Some (Dir es) \<Longrightarrow> makedirs ps fs = Some fs"
proof (induction ps arbitrary: fs)
  case Nil
  then show ?case by simp
next
  case (Cons a ps)
  then obtain es0 m where fs: "fs = Dir es0" and a: "map_of es0 a = Some m"
    and m: "lookup m ps = Some (Dir es)"
    by (cases fs) (auto split: option.splits)
  show ?case
    using Cons.IH [OF m] a by (simp add: fs update_triv)
qed

lemma makedirs_child:
  "lookup fs ps = Some (Dir es) \<Longrightarrow> map_of es c = None \<Longrightarrow>
   makedirs (ps @ [c]) fs = put (ps @ [c]) (Dir []) fs"
proof (induction ps arbitrary: fs)
  case Nil
  then show ?case by simp
next
  case (Cons a ps)
  then obtain es0 m where fs: "fs = Dir es0" and a: "map_of es0 a = Some m"
    and m: "lookup m ps = Some (Dir es)"
    by (cases fs) (auto split: option.splits)
  show ?case
    using Cons.IH [OF m Cons.prems(2)] a by (simp add: fs put_Cons_Dir)
qed

lemma lookup_child:
  "lookup fs ps = Some (Dir es) \<Longrightarrow> lookup fs (ps @ [c]) = map_of es c"
  by (simp add: lookup_append split: option.splits)






lemma get_hls_key_disk:
  "disk (snd (get_hls_key remote zipurl token w)) = disk w"
proof (cases "re_search_encrypted zipurl")
  case None
  then show ?thesis by (simp add: get_hls_key_def)
next
  case (Some encryption_id)
  then show ?thesis by (simp add: get_hls_key_world)
qed

section \<open>Properties of the segment locator and the pipeline\<close>

lemma marker_ext [simp]:
  "list_ex (endswith file) supported_extensions = endswith file ''.tsa''"
  by (simp add: supported_extensions_def)

lemma concat_map_concat_map:
  "concat (map f (concat (map g xs))) = concat (map (\<lambda>x. concat (map f (g x))) xs)"
  by (induction xs) simp_all

lemma segment_files_in_File [simp]: "segment_files_in d (File x) = []"
  by (simp add: segment_files_in_def)

lemma segment_files_in_Dir:
  "segment_files_in d (Dir es) =
     map (os_path_join d) (filter (\<lambda>file. endswith file ''.tsa'') [name. (name, File _) \<leftarrow> es])
     @ concat (map (\<lambda>(name, sub). segment_files_in (os_path_join d name) sub) es)"
proof -
  have "(\<lambda>x. concat (map (\<lambda>(rootdir, dirs, files).
                    map (os_path_join rootdir) (filter (\<lambda>file. endswith file ''.tsa'') files))
                 (case x of (name, sub) \<Rightarrow> os_walk (os_path_join d name) sub)))
        = (\<lambda>(name, sub). segment_files_in (os_path_join d name) sub)"
    by (auto simp: segment_files_in_def fun_eq_iff)
  then show ?thesis
    by (simp add: segment_files_in_def concat_map_concat_map)
qed

lemma files_of_entries:
  "length (filter P [name. (name, File _) \<leftarrow> es])
     = sum_list (map (\<lambda>(name, sub). case sub of File _ \<Rightarrow> (if P name then 1 else 0)
                                      | Dir _ \<Rightarrow> 0) es)"
proof (induction es)
  case Nil
  show ?case by simp
next
  case (Cons e es)
  obtain name sub where e: "e = (name, sub)" by (cases e)
  show ?case using Cons.IH by (cases sub) (simp_all add: e)
qed

lemma length_segment_files_in:
  "length (segment_files_in d t) = count_files (\<lambda>name. endswith name ''.tsa'') t"
proof (induction d t rule: os_walk.induct)
  case (1 dirpath x)
  show ?case by simp
next
  case (2 dirpath es)
  have sub: "sum_list (map (\<lambda>(name, sub). length (segment_files_in (os_path_join dirpath name) sub)) es)
           = sum_list (map (\<lambda>(name, sub). count_files (\<lambda>name. endswith name ''.tsa'') sub) es)"
    by (rule arg_cong [where f = sum_list], rule map_cong) (auto simp: "2.IH")
  have split: "(\<lambda>(name, sub). case sub of
                   File _ \<Rightarrow> (if endswith name ''.tsa'' then 1 else 0)
                 | Dir _ \<Rightarrow> count_files (\<lambda>name. endswith name ''.tsa'') sub)
             = (\<lambda>e. (case e of (name, sub) \<Rightarrow> (case sub of
                          File _ \<Rightarrow> (if endswith name ''.tsa'' then 1 else 0) | Dir _ \<Rightarrow> 0))
                   + (case e of (name, sub) \<Rightarrow> count_files (\<lambda>name. endswith name ''.tsa'') sub))"
    by (auto simp: fun_eq_iff split: node.splits)
  show ?case
    by (simp only: segment_files_in_Dir count_files.simps split sum_list_addf)
       (simp add: length_concat comp_def case_prod_unfold files_of_entries [unfolded case_prod_unfold]
          sub [unfolded case_prod_unfold])
qed

lemma has_file_nonempty: "has_file t ns \<Longrightarrow> ns \<noteq> []"
  by (induction rule: has_file.induct) simp_all

lemma segment_files_in_sound:
  "p \<in> set (segment_files_in d t) \<Longrightarrow>
   \<exists>ns. has_file t ns \<and> endswith (last ns) ''.tsa'' \<and> p = foldl os_path_join d ns"
proof (induction d t arbitrary: p rule: os_walk.induct)
  case (1 dirpath x)
  then show ?case by simp
next
  case (2 dirpath es)
  from "2.prems" consider
    (here) name where "name \<in> set [name. (name, File _) \<leftarrow> es]" "endswith name ''.tsa''"
      "p = os_path_join dirpath name"
    | (below) name sub where "(name, sub) \<in> set es"
      "p \<in> set (segment_files_in (os_path_join dirpath name) sub)"
    by (auto simp: segment_files_in_Dir)
  then show ?case
  proof cases
    case here
    then obtain bytes where "(name, File bytes) \<in> set es"
      by (auto split: node.splits)
    then have "has_file (Dir es) [name]" by (rule has_file.here)
    then show ?thesis using here by fastforce
  next
    case below
    from "2.IH" [OF below(1) refl below(2)] obtain ns where
      ns: "has_file sub ns" "endswith (last ns) ''.tsa''" "p = foldl os_path_join (os_path_join dirpath name) ns"
      by blast
    have "has_file (Dir es) (name # ns)"
      using below(1) ns(1) by (rule has_file.below)
    moreover have "last (name # ns) = last ns"
      using has_file_nonempty [OF ns(1)] by simp
    ultimately show ?thesis using ns by fastforce
  qed
qed

lemma segment_files_in_complete:
  "has_file t ns \<Longrightarrow> endswith (last ns) ''.tsa'' \<Longrightarrow>
   foldl os_path_join d ns \<in> set (segment_files_in d t)"
proof (induction arbitrary: d rule: has_file.induct)
  case (here name bytes es)
  then have "name \<in> set [name. (name, File _) \<leftarrow> es]"
    by force
  then show ?case using here by (simp add: segment_files_in_Dir)
next
  case (below name sub es ns)
  have "last (name # ns) = last ns"
    using has_file_nonempty [OF below(2)] by simp
  then have "foldl os_path_join (os_path_join d name) ns
               \<in> set (segment_files_in (os_path_join d name) sub)"
    using below by simp
  then show ?case using below(1) by (auto simp: segment_files_in_Dir)
qed

lemma run_without_segments:
  assumes tok: "api_token w = Some token" "token \<noteq> []"
    and key: "get_hls_key remote zipurl token w = (Inr hls_key, w1)"
    and mk: "os_mkdir temp_dir (disk w1) = Inr fs1"
    and get: "remote (GET zipurl) = Some response" "status response < 400"
      "\<not> truncated response"
    and unz: "unzip (content response) (Dir []) = (Dir es, None)"
    and none: "count_files (\<lambda>name. endswith name ''.tsa'') (Dir es) = 0"
    and nodir: "\<forall>sub. map_of es ''simulated_output.mkv'' \<noteq> Some (Dir sub)"
  shows "fst (process_appx_zip_logic remote unzip temp_dir zipurl w)
           = Some (os_path_join (os_path_join temp_dir ''extracted'') ''simulated_output.mkv'')"
proof -
  define T where "T = path_parts temp_dir"
  define extracted where "extracted = os_path_join temp_dir ''extracted''"
  define zip where "zip = os_path_join temp_dir ''downloaded.zip''"
  define out where "out = os_path_join extracted ''simulated_output.mkv''"
  have pe: "path_parts extracted = T @ [''extracted'']"
    by (simp add: extracted_def T_def path_parts_join startswith_def) (simp add: path_parts_def)
  have pz: "path_parts zip = T @ [''downloaded.zip'']"
    by (simp add: zip_def T_def path_parts_join startswith_def) (simp add: path_parts_def)
  have po: "path_parts out = (T @ [''extracted'']) @ [''simulated_output.mkv'']"
    by (simp add: out_def pe path_parts_join startswith_def) (simp add: path_parts_def)
  \<comment> \<open>the fresh directory\<close>
  from mk have "put T (Dir []) (disk w1) = Some fs1"
    by (auto simp: os_mkdir_def T_def split: option.splits)
  then have l1: "lookup fs1 T = Some (Dir [])"
    by (rule lookup_put_same)
  \<comment> \<open>\<open>os.makedirs(extracted_path)\<close>\<close>
  from put_child [OF l1, of "''extracted''" "Dir []"] obtain fs2 where
    p2: "put (T @ [''extracted'']) (Dir []) fs1 = Some fs2"
    and l2: "lookup fs2 T = Some (Dir [(''extracted'', Dir [])])"
    by auto
  have m2: "os_makedirs extracted fs1 = Inr fs2"
    using makedirs_child [OF l1, of "''extracted''"] p2 by (simp add: os_makedirs_def pe)
  \<comment> \<open>the download\<close>
  from put_child [OF l2, of "''downloaded.zip''" "File (content response)"] obtain fs3 where
    p3: "put (T @ [''downloaded.zip'']) (File (content response)) fs2 = Some fs3"
    and l3: "lookup fs3 T = Some (Dir [(''extracted'', Dir []),
                                       (''downloaded.zip'', File (content response))])"
    by auto
  have "lookup fs2 (T @ [''downloaded.zip'']) = None"
    by (simp add: lookup_child [OF l2])
  then have wz: "write_file zip (content response) fs2 = Inr fs3"
    using p3 by (simp add: write_file_def pz)
  define w2 where "w2 = w1\<lparr>disk := fs2, requests := requests w1 @ [GET zipurl], disk := fs3\<rparr>"
  have dl: "download_file remote zipurl zip (w1\<lparr>disk := fs2\<rparr>) = (Inr (), w2)"
    using get wz by (simp add: download_file_def Let_def w2_def)
  have d2: "disk w2 = fs3" by (simp add: w2_def)
  \<comment> \<open>the expansion\<close>
  have e3: "lookup fs3 (T @ [''extracted'']) = Some (Dir [])"
    and z3: "lookup fs3 (T @ [''downloaded.zip'']) = Some (File (content response))"
    by (simp_all add: lookup_child [OF l3])
  from put_child [OF l3, of "''extracted''" "Dir es"] obtain fs4 where
    p4: "put (T @ [''extracted'']) (Dir es) fs3 = Some fs4"
    and l4: "lookup fs4 T = Some (Dir [(''extracted'', Dir es),
                                       (''downloaded.zip'', File (content response))])"
    by auto
  have ex: "extract_zip unzip zip extracted w2 = (Inr (), w2\<lparr>disk := fs4\<rparr>)"
    using makedirs_existing [OF e3] e3 z3 unz p4
    by (simp add: extract_zip_def os_makedirs_def pe pz d2)
  have e4: "lookup fs4 (T @ [''extracted'']) = Some (Dir es)"
    by (simp add: lookup_child [OF l4])
  \<comment> \<open>no segments\<close>
  have "length (segment_files_in extracted (Dir es)) = 0"
    using none by (simp only: length_segment_files_in)
  then have loc: "locate_segments extracted fs4 = []"
    by (simp add: locate_segments_def pe e4)
  \<comment> \<open>the output\<close>
  from put_child [OF e4, of "''simulated_output.mkv''" "File dummy_mkv"] obtain fs5 where
    p5: "put ((T @ [''extracted'']) @ [''simulated_output.mkv'']) (File dummy_mkv) fs4 = Some fs5"
    by auto
  have "lookup fs4 ((T @ [''extracted'']) @ [''simulated_output.mkv''])
          = map_of es ''simulated_output.mkv''"
    by (rule lookup_child [OF e4])
  then have "write_file out dummy_mkv fs4 = Inr fs5"
    using nodir p5 by (simp add: write_file_def po split: option.splits node.splits)
  then have fin: "process_final_output_placeholder extracted (w2\<lparr>disk := fs4\<rparr>)
                    = (Inr out, w2\<lparr>disk := fs5\<rparr>)"
    by (simp add: process_final_output_placeholder_def Let_def out_def)
  have stage: "fetch_and_expand remote unzip temp_dir zipurl (w1\<lparr>disk := fs1\<rparr>)
                = (Inr (), w2\<lparr>disk := fs4\<rparr>)"
    using m2 dl ex
    by (simp add: fetch_and_expand_def Let_def extracted_def [symmetric] zip_def [symmetric])
  have body: "workspace_body remote unzip temp_dir zipurl hls_key (w1\<lparr>disk := fs1\<rparr>)
                = (Inr out, w2\<lparr>disk := fs5\<rparr>)"
    using stage loc fin
    by (simp add: workspace_body_def Let_def extracted_def [symmetric])
  show ?thesis
    by (simp add: run_after_allocation [OF tok key mk body] out_def extracted_def)
qed

text \<open>
  Claim C6. The locator returns exactly the files below the root, at any depth, whose
  names end in \<open>.tsa\<close>: a path is returned if and only if it is the root joined with
  the names leading down to such a file, and the list has as many paths as the tree has
  such files (the N marked ones; the M others add nothing). An empty list is no error:
  when the key was fetched, the workspace made, the archive downloaded and expanded, and
  the tree holds no marked file (and no directory in the place of the output file), the
  run goes on to the output producer and returns the path of the output.
\<close>

theorem segment_locator_exact:
  "(lookup fs (path_parts extracted_path) = Some tree \<longrightarrow>
      set (locate_segments extracted_path fs)
        = {foldl os_path_join extracted_path ns | ns.
             has_file tree ns \<and> endswith (last ns) ''.tsa''} \<and>
      length (locate_segments extracted_path fs)
        = count_files (\<lambda>name. endswith name ''.tsa'') tree) \<and>
   (api_token w = Some token \<and> token \<noteq> [] \<and>
    fst (get_hls_key remote zipurl token w) = Inr hls_key \<and>
    os_mkdir temp_dir (disk w) = Inr fs1 \<and>
    remote (GET zipurl) = Some response \<and> status response < 400 \<and> \<not> truncated response \<and>
    unzip (content response) (Dir []) = (Dir es, None) \<and>
    count_files (\<lambda>name. endswith name ''.tsa'') (Dir es) = 0 \<and>
    (\<forall>sub. map_of es ''simulated_output.mkv'' \<noteq> Some (Dir sub)) \<longrightarrow>
      fst (process_appx_zip_logic remote unzip temp_dir zipurl w)
        = Some (os_path_join (os_path_join temp_dir ''extracted'') ''simulated_output.mkv''))"
proof (intro conjI impI)
  assume t: "lookup fs (path_parts extracted_path) = Some tree"
  show "set (locate_segments extracted_path fs)
        = {foldl os_path_join extracted_path ns | ns.
             has_file tree ns \<and> endswith (last ns) ''.tsa''}"
    using segment_files_in_sound [of _ extracted_path tree]
      segment_files_in_complete [of tree _ extracted_path]
    by (auto simp: locate_segments_def t)
  show "length (locate_segments extracted_path fs)
        = count_files (\<lambda>name. endswith name ''.tsa'') tree"
    by (simp add: locate_segments_def t length_segment_files_in)
next
  assume a: "api_token w = Some token \<and> token \<noteq> [] \<and>
    fst (get_hls_key remote zipurl token w) = Inr hls_key \<and>
    os_mkdir temp_dir (disk w) = Inr fs1 \<and>
    remote (GET zipurl) = Some response \<and> status response < 400 \<and> \<not> truncated response \<and>
    unzip (content response) (Dir []) = (Dir es, None) \<and>
    count_files (\<lambda>name. endswith name ''.tsa'') (Dir es) = 0 \<and>
    (\<forall>sub. map_of es ''simulated_output.mkv'' \<noteq> Some (Dir sub))"
  obtain w1 where key: "get_hls_key remote zipurl token w = (Inr hls_key, w1)"
    using a by (cases "get_hls_key remote zipurl token w") simp
  have "disk w1 = disk w"
    using get_hls_key_disk [of remote zipurl token w] key by simp
  then have mk: "os_mkdir temp_dir (disk w1) = Inr fs1"
    using a by simp
  show "fst (process_appx_zip_logic remote unzip temp_dir zipurl w)
        = Some (os_path_join (os_path_join temp_dir ''extracted'') ''simulated_output.mkv'')"
  proof (rule run_without_segments [OF _ _ key mk])
    show "api_token w = Some token" and "token \<noteq> []"
      and "remote (GET zipurl) = Some response" and "status response < 400"
      and "\<not> truncated response"
      and "unzip (content response) (Dir []) = (Dir es, None)"
      and "count_files (\<lambda>name. endswith name ''.tsa'') (Dir es) = 0"
      and "\<forall>sub. map_of es ''simulated_output.mkv'' \<noteq> Some (Dir sub)"
      using a by blast+
  qed
qed

theorem segment_locator_exact_witness:
  "lookup example_tree (path_parts ''/tmp/tmpab12cd34/extracted'')
     = Some (Dir [(''seg1.tsa'', File ''s1''), (''seg2.tsa'', File ''s2''),
                  (''notes.txt'', File ''n'')]) \<and>
   length (locate_segments ''/tmp/tmpab12cd34/extracted'' example_tree) = 2 \<and>
   fst (process_appx_zip_logic (example_remote 200 (PyDict [(''key'', PyStr ''abc123'')]))
          (\<lambda>bytes target. (Dir [(''notes.txt'', File ''n'')], None))
          ''/tmp/tmpab12cd34'' example_url example_world)
     = Some ''/tmp/tmpab12cd34/extracted/simulated_output.mkv''"
proof -
  let ?remote = "example_remote 200 (PyDict [(''key'', PyStr ''abc123'')])"
  let ?unzip = "\<lambda>(bytes::string) (target::node). (Dir [(''notes.txt'', File ''n'')], None::error option)"
  let ?response = "\<lparr>status = 200, text_value = None, json_value = None,
                     content = ''PK'', truncated = False\<rparr>"
  have t: "lookup example_tree (path_parts ''/tmp/tmpab12cd34/extracted'')
     = Some (Dir [(''seg1.tsa'', File ''s1''), (''seg2.tsa'', File ''s2''),
                  (''notes.txt'', File ''n'')])"
    by code_simp
  have n: "count_files (\<lambda>name. endswith name ''.tsa'')
             (Dir [(''seg1.tsa'', File ''s1''), (''seg2.tsa'', File ''s2''),
                   (''notes.txt'', File ''n'')]) = 2"
    by (simp add: endswith_def suffix_to_prefix)
  have r1: "length (locate_segments ''/tmp/tmpab12cd34/extracted'' example_tree) = 2"
    using segment_locator_exact [THEN conjunct1, rule_format, OF t] n by simp
  have h: "api_token example_world = Some ''x.y.z'' \<and> ''x.y.z'' \<noteq> [] \<and>
    fst (get_hls_key ?remote example_url ''x.y.z'' example_world) = Inr (PyStr ''abc123'') \<and>
    os_mkdir ''/tmp/tmpab12cd34'' (disk example_world)
      = Inr (Dir [(''tmp'', Dir [(''tmpab12cd34'', Dir [])])]) \<and>
    ?remote (GET example_url) = Some ?response \<and> status ?response < 400 \<and>
    \<not> truncated ?response \<and>
    ?unzip (content ?response) (Dir []) = (Dir [(''notes.txt'', File ''n'')], None) \<and>
    count_files (\<lambda>name. endswith name ''.tsa'') (Dir [(''notes.txt'', File ''n'')]) = 0 \<and>
    (\<forall>sub. map_of [(''notes.txt'', File ''n'')] ''simulated_output.mkv'' \<noteq> Some (Dir sub))"
  proof (intro conjI)
    show "fst (get_hls_key ?remote example_url ''x.y.z'' example_world) = Inr (PyStr ''abc123'')"
      by code_simp
    show "os_mkdir ''/tmp/tmpab12cd34'' (disk example_world)
      = Inr (Dir [(''tmp'', Dir [(''tmpab12cd34'', Dir [])])])"
      by code_simp
    show "count_files (\<lambda>name. endswith name ''.tsa'') (Dir [(''notes.txt'', File ''n'')]) = 0"
      by (simp add: endswith_def suffix_to_prefix)
  qed (simp_all add: example_world_def example_remote_def)
  have r2: "fst (process_appx_zip_logic ?remote ?unzip ''/tmp/tmpab12cd34'' example_url
                   example_world)
     = Some (os_path_join (os_path_join ''/tmp/tmpab12cd34'' ''extracted'')
               ''simulated_output.mkv'')"
    using segment_locator_exact [THEN conjunct2, rule_format, OF h] .
  have j: "os_path_join (os_path_join ''/tmp/tmpab12cd34'' ''extracted'') ''simulated_output.mkv''
             = ''/tmp/tmpab12cd34/extracted/simulated_output.mkv''"
    by code_simp
  show ?thesis using t r1 r2 j by simp
qed

subsection \<open>Renames stay below the extracted tree\<close>

text \<open>
  The frame of the removal and of the rename, and the paths the segment transformer
  renames from and to: when the path of the temporary directory does not contain the
  marker and the archive's entries have plain names, both lie below the directory
  \<open>extracted\<close>.
\<close>

lemma del_Cons_Dir:
  "cs \<noteq> [] \<Longrightarrow> del (c # cs) (Dir es) =
     (case map_of es c of None \<Rightarrow> Dir es | Some n \<Rightarrow> Dir (AList.update c (del cs n) es))"
  by (cases cs) (auto split: option.splits)




















lemma path_parts_Nil [simp]: "path_parts [] = []"
  by (simp add: path_parts_def)







text \<open>
  Whatever the run does, a well-formed download command ends with the failure notice:
  when the run returns a path, the file it names is gone.
\<close>

lemma download_always_fails:
  assumes "a \<noteq> []" "api_token w = Some token" "token \<noteq> []"
    and "startswith (strip a) ''http://'' \<or> startswith (strip a) ''https://''"
    and "endswith (strip a) ''.zip''"
  shows "download_command_handler remote unzip temp_dir deliverable (Some a) w
           = answer Failed (snd (process_appx_zip_logic remote unzip temp_dir (strip a)
                                   (answer (Processing (strip a)) w)))"
proof -
  obtain r w1 where run: "process_appx_zip_logic remote unzip temp_dir (strip a)
                            (answer (Processing (strip a)) w) = (r, w1)"
    by (cases "process_appx_zip_logic remote unzip temp_dir (strip a)
                 (answer (Processing (strip a)) w)")
  show ?thesis
  proof (cases r)
    case None
    then show ?thesis
      using assms run by (auto simp: download_command_handler_def Let_def)
  next
    case (Some p)
    then have "lookup (disk w1) (path_parts p) = None"
      using run returned_path_is_removed by simp
    then show ?thesis
      using assms run Some
      by (auto simp: download_command_handler_def Let_def split: bool.splits)
  qed
qed

text \<open>
  Claim C1 says that in the end-to-end scenario the path the run returns names a file
  that exists when the command handler receives it, and that the handler sends it. The
  \<open>return\<close> sits inside the \<open>with\<close> block: leaving the block removes the directory
  that holds the output, so the path returned names nothing, and the handler, which
  tests \<open>os.path.exists\<close>, answers with the failure notice.
\<close>

theorem download_scenario_output_removed:
  "process_appx_zip_logic (example_remote 200 (PyDict [(''key'', PyStr ''abc123'')]))
     example_unzip ''/tmp/tmpab12cd34'' example_url example_world
   = (Some ''/tmp/tmpab12cd34/extracted/simulated_output.mkv'',
      example_world\<lparr>requests :=
        [POST api_url (headers ''x.y.z'') (PyDict [(''id'', PyStr ''encrypted-deadbeef'')]),
         GET example_url]\<rparr>) \<and>
   \<not> os_path_exists ''/tmp/tmpab12cd34/extracted/simulated_output.mkv''
       (disk (snd (process_appx_zip_logic
                     (example_remote 200 (PyDict [(''key'', PyStr ''abc123'')]))
                     example_unzip ''/tmp/tmpab12cd34'' example_url example_world))) \<and>
   outbox (download_command_handler (example_remote 200 (PyDict [(''key'', PyStr ''abc123'')]))
     example_unzip ''/tmp/tmpab12cd34'' True (Some example_url) example_world)
   = [Answer (Processing example_url), Answer Failed]"
  by code_simp

theorem download_scenario_output_removed_witness:
  "strip example_url = example_url \<and>
   (startswith example_url ''http://'' \<or> startswith example_url ''https://'') \<and>
   endswith example_url ''.zip'' \<and>
   api_token example_world = Some ''x.y.z'' \<and>
   last (outbox (download_command_handler
                   (example_remote 200 (PyDict [(''key'', PyStr ''abc123'')]))
                   example_unzip ''/tmp/tmpab12cd34'' True (Some example_url) example_world))
     = Answer Failed"
proof -
  have guards: "strip example_url = example_url"
    "startswith example_url ''http://'' \<or> startswith example_url ''https://''"
    "endswith example_url ''.zip''"
    "api_token example_world = Some ''x.y.z''"
    by code_simp+
  show ?thesis
    using guards download_scenario_output_removed by simp
qed

end
